theory Spec2Isabelle
  imports Main
begin

section \<open>The PyPCO generator (\<^verbatim>\<open>tools/pypco_generator.py\<close>)\<close>

text \<open>
  The generator reads a documentation graph (a root document and one document per
  vertex), builds two lists of dictionaries, \<^verbatim>\<open>models\<close> and \<^verbatim>\<open>endpoints\<close>, renders
  each through a template and writes two files. This theory embeds \<^verbatim>\<open>generate\<close> and
  \<^verbatim>\<open>_underscore_to_camelcase\<close> as HOL functions. Python exceptions are values of a sum
  type, the two \<^verbatim>\<open>for\<close> loops and the \<^verbatim>\<open>while True\<close> loop are recursive functions, the
  dictionary \<^verbatim>\<open>description_dict\<close> is a map, and the files written are a map from file
  names to contents.
\<close>

subsection \<open>Exceptions\<close>

text \<open>
  \<^verbatim>\<open>ValueError\<close> (raised by \<^verbatim>\<open>list.index\<close>), \<^verbatim>\<open>IndexError\<close> (raised by indexing a list out
  of range) and \<^verbatim>\<open>KeyError\<close> (raised by a dictionary lookup) are the built-in exceptions
  the modelled code raises. \<^verbatim>\<open>InvalidArgument\<close> and \<^verbatim>\<open>MalformedURL\<close> are names of the
  specification's error taxonomy; the source defines no such exception class and no
  equation below produces them. They are constructors here so that statements naming
  them can be written down.
\<close>

datatype error = ValueError | IndexError | KeyError | InvalidArgument | MalformedURL

text \<open>Python's class hierarchy: \<^verbatim>\<open>IndexError\<close> and \<^verbatim>\<open>KeyError\<close> derive from \<^verbatim>\<open>LookupError\<close>.\<close>

definition is_LookupError :: "error \<Rightarrow> bool" where
  "is_LookupError e = (e = IndexError \<or> e = KeyError)"

subsection \<open>Python list and string primitives\<close>

text \<open>\<^verbatim>\<open>xs.index(x)\<close>: the position of the first element equal to \<^verbatim>\<open>x\<close>, or \<^verbatim>\<open>ValueError\<close>.\<close>

fun list_index :: "'a list \<Rightarrow> 'a \<Rightarrow> error + nat" where
  "list_index [] x = Inl ValueError"
| "list_index (y # ys) x =
     (if y = x then Inr 0
      else (case list_index ys x of Inl e \<Rightarrow> Inl e | Inr i \<Rightarrow> Inr (Suc i)))"

text \<open>\<^verbatim>\<open>xs[i]\<close>: a negative index counts from the end; out of range is \<^verbatim>\<open>IndexError\<close>.\<close>

definition list_get :: "'a list \<Rightarrow> int \<Rightarrow> error + 'a" where
  "list_get xs i =
     (if 0 \<le> i \<and> i < int (length xs) then Inr (xs ! nat i)
      else if i < 0 \<and> - int (length xs) \<le> i then Inr (xs ! nat (int (length xs) + i))
      else Inl IndexError)"

text \<open>
  \<^verbatim>\<open>xs[i] = v\<close> and \<^verbatim>\<open>del xs[i]\<close> for an index \<^verbatim>\<open>i \<ge> 0\<close> (the only indices the code
  assigns at or deletes are 0 and results of \<^verbatim>\<open>index\<close>); out of range is \<^verbatim>\<open>IndexError\<close>.
\<close>

definition list_set :: "'a list \<Rightarrow> nat \<Rightarrow> 'a \<Rightarrow> error + 'a list" where
  "list_set xs i v = (if i < length xs then Inr (xs[i := v]) else Inl IndexError)"

definition list_del :: "'a list \<Rightarrow> nat \<Rightarrow> error + 'a list" where
  "list_del xs i = (if i < length xs then Inr (take i xs @ drop (Suc i) xs) else Inl IndexError)"

text \<open>
  \<^verbatim>\<open>s.split(sep)\<close> for a one-character separator: the pieces between the occurrences of
  the separator, empty pieces included; the result is never the empty list.
\<close>

fun split :: "string \<Rightarrow> char \<Rightarrow> string list" where
  "split [] sep = [[]]"
| "split (c # cs) sep =
     (if c = sep then [] # split cs sep
      else (case split cs sep of [] \<Rightarrow> [[c]] | p # ps \<Rightarrow> (c # p) # ps))"

text \<open>\<^verbatim>\<open>s.replace(old, new)\<close> for one-character \<^verbatim>\<open>old\<close> and \<^verbatim>\<open>new\<close>.\<close>

definition replace :: "string \<Rightarrow> char \<Rightarrow> char \<Rightarrow> string" where
  "replace s old new = map (\<lambda>c. if c = old then new else c) s"

text \<open>
  \<^verbatim>\<open>c.upper()\<close> on a one-character string, for ASCII text (every character below 128):
  the 26 lower-case letters go to their upper-case forms and every other character is
  unchanged. Beyond ASCII \<^verbatim>\<open>str.upper()\<close> changes further letters and can return more
  than one character, which \<open>upper\<close> does not follow; what is proved about the
  characters the formatter returns is proved for ASCII identifiers, as \<open>ascii\<close> says.
\<close>

definition lowercase :: string where
  "lowercase = ''abcdefghijklmnopqrstuvwxyz''"

definition uppercase :: string where
  "uppercase = ''ABCDEFGHIJKLMNOPQRSTUVWXYZ''"

definition upper :: "char \<Rightarrow> char" where
  "upper c = (case map_of (zip lowercase uppercase) c of None \<Rightarrow> c | Some u \<Rightarrow> u)"

definition is_letter :: "char \<Rightarrow> bool" where
  "is_letter c = (c \<in> set lowercase \<or> c \<in> set uppercase)"

definition ascii :: "string \<Rightarrow> bool" where
  "ascii s = list_all (\<lambda>c. \<not> digit7 c) s"

subsection \<open>The name formatter \<^verbatim>\<open>_underscore_to_camelcase\<close>\<close>

text \<open>
  \<^verbatim>\<open>
  string = list(underscore_str)
  string[0] = string[0].upper()
  try:
      while True:
          under_ndx = string.index(repl_char)
          del string[under_ndx]
          string[under_ndx] = string[under_ndx].upper()
  except ValueError:
      pass
  return ''.join(string)
  \<close>
  The list holds one-character strings, so it is a \<^typ>\<open>char list\<close>, and \<^verbatim>\<open>repl_char\<close>
  (\<^verbatim>\<open>'_'\<close> by default, \<^verbatim>\<open>'-'\<close> at the other call site) is a \<^typ>\<open>char\<close>; joining the list
  gives the list itself. \<^verbatim>\<open>while True\<close> has no exit but an exception, so the loop
  returns the list as it stands when the exception is raised, and the exception. Every
  round deletes one element, which is why the loop ends. The handler swallows a
  \<^verbatim>\<open>ValueError\<close> and lets everything else through.
\<close>

function while_true :: "string \<Rightarrow> char \<Rightarrow> string \<times> error" where
  "while_true string repl_char =
     (case list_index string repl_char of
        Inl e \<Rightarrow> (string, e)
      | Inr under_ndx \<Rightarrow>
          (case list_del string under_ndx of
             Inl e \<Rightarrow> (string, e)
           | Inr string1 \<Rightarrow>
               (case list_get string1 (int under_ndx) of
                  Inl e \<Rightarrow> (string1, e)
                | Inr c \<Rightarrow>
                    (case list_set string1 under_ndx (upper c) of
                       Inl e \<Rightarrow> (string1, e)
                     | Inr string2 \<Rightarrow> while_true string2 repl_char))))"
  by pat_completeness auto
termination
proof (relation "measure (\<lambda>(string, repl_char). length string)")
  show "wf (measure (\<lambda>(string :: string, repl_char :: char). length string))"
    by simp
next
  fix string string1 string2 :: string and repl_char c :: char and under_ndx :: nat
  assume "list_del string under_ndx = Inr string1"
    and "list_set string1 under_ndx (upper c) = Inr string2"
  then show "((string2, repl_char), (string, repl_char))
      \<in> measure (\<lambda>(string, repl_char). length string)"
    by (auto simp: list_del_def list_set_def split: if_splits)
qed

definition default_repl_char :: char where
  "default_repl_char = CHR ''_''"

definition underscore_to_camelcase :: "string \<Rightarrow> char \<Rightarrow> error + string" where
  "underscore_to_camelcase underscore_str repl_char =
     (case list_get underscore_str 0 of
        Inl e \<Rightarrow> Inl e
      | Inr c \<Rightarrow>
          (case list_set underscore_str 0 (upper c) of
             Inl e \<Rightarrow> Inl e
           | Inr string \<Rightarrow>
               (case while_true string repl_char of
                  (string', e) \<Rightarrow> if e = ValueError then Inr string' else Inl e)))"

declare while_true.simps [simp del]

subsection \<open>The documentation graph\<close>

text \<open>
  The code reads parsed JSON. The model starts after parsing, with one record per
  document shape, holding the fields the code reads; a document that lacks one of
  them, a failing request and a body that is not JSON are outside the model.

  A vertex stub is an element of \<^verbatim>\<open>doc_json['data']['relationships']['vertices']['data']\<close>:
  \<^verbatim>\<open>vertex['id']\<close> and \<^verbatim>\<open>vertex['attributes']['name']\<close>.
\<close>

record vertex_stub =
  stub_id :: string
  stub_name :: string

text \<open>
  A vertex document is the body of \<^verbatim>\<open>GET {doc_url}/vertices/{id}\<close>:
  \<^verbatim>\<open>vertex_json['data']['id']\<close> and, under \<^verbatim>\<open>vertex_json['data']['attributes']\<close>, \<^verbatim>\<open>path\<close> and
  \<^verbatim>\<open>description\<close>.
\<close>

record vertex_json =
  data_id :: string
  attr_path :: string
  attr_description :: string

text \<open>
  An outbound edge of the entry vertex: \<^verbatim>\<open>edge['attributes']['name']\<close> and
  \<^verbatim>\<open>edge['relationships']['head']['data']['id']\<close>.
\<close>

record edge =
  edge_name :: string
  head_id :: string

text \<open>The root document: the vertex stubs and the entry vertex's outbound edges.\<close>

record doc_json =
  vertices :: "vertex_stub list"
  outbound_edges :: "edge list"

text \<open>The dictionaries appended to \<^verbatim>\<open>models\<close> and to \<^verbatim>\<open>endpoints\<close>.\<close>

record model =
  model_name :: string
  model_endpoint :: string
  model_description :: string

record endpoint =
  endpoint_name :: string
  endpoint_description :: string

text \<open>
  What \<^verbatim>\<open>generate\<close> takes from outside the repository: the two kinds of request
  (\<^verbatim>\<open>requests.get\<close> followed by \<^verbatim>\<open>json.loads\<close>), the rendering of the two templates by
  \<^verbatim>\<open>jinja2\<close> (from the \<^verbatim>\<open>app\<close> variable and the list), and \<^verbatim>\<open>os.sep\<close>.
\<close>

record env =
  get_doc :: "string \<Rightarrow> doc_json"
  get_vertex :: "string \<Rightarrow> vertex_json"
  render_models :: "string \<Rightarrow> model list \<Rightarrow> string"
  render_endpoints :: "string \<Rightarrow> endpoint list \<Rightarrow> string"
  os_sep :: string

type_synonym files = "string \<rightharpoonup> string"

subsection \<open>\<^verbatim>\<open>generate\<close>\<close>

text \<open>
  Lines 111 and 112:
  \<^verbatim>\<open>
  url_split = doc_url.split('/')
  app = url_split[url_split.index('v2') - 1]
  \<close>
\<close>

definition resolve_app :: "string \<Rightarrow> error + string" where
  "resolve_app doc_url =
     (let url_split = split doc_url CHR ''/''
      in case list_index url_split ''v2'' of
           Inl e \<Rightarrow> Inl e
         | Inr i \<Rightarrow> list_get url_split (int i - 1))"

text \<open>
  The request of line 144: \<^verbatim>\<open>"{}/vertices/{}".format(doc_url, vertex['id'])\<close>.
\<close>

definition vertex_url :: "string \<Rightarrow> vertex_stub \<Rightarrow> string" where
  "vertex_url doc_url vertex = doc_url @ ''/vertices/'' @ stub_id vertex"

text \<open>
  Line 156, on the \<^verbatim>\<open>path\<close> attribute split at \<^verbatim>\<open>'/'\<close>:
  \<^verbatim>\<open>'' if path[-1] == 'v2' else path[path.index('v2') + 1]\<close>.
\<close>

definition endpoint_of_path :: "string list \<Rightarrow> error + string" where
  "endpoint_of_path path =
     (case list_get path (- 1) of
        Inl e \<Rightarrow> Inl e
      | Inr l \<Rightarrow>
          if l = ''v2'' then Inr ''''
          else (case list_index path ''v2'' of
                  Inl e \<Rightarrow> Inl e
                | Inr i \<Rightarrow> list_get path (int i + 1)))"

text \<open>
  The dictionary built in lines 151 to 159 from a vertex stub and its document:
  \<^verbatim>\<open>
  path = vertex_json['data']['attributes']['path'].split('/')
  models.append({
      'name': vertex['attributes']['name'],
      'endpoint': '' if path[-1] == 'v2' else path[path.index('v2') + 1],
      'description': vertex_json['data']['attributes']['description']})
  \<close>
\<close>

definition model_of :: "vertex_stub \<Rightarrow> vertex_json \<Rightarrow> error + model" where
  "model_of vertex vj =
     (let path = split (attr_path vj) CHR ''/''
      in case endpoint_of_path path of
           Inl e \<Rightarrow> Inl e
         | Inr ep \<Rightarrow>
             Inr \<lparr>model_name = stub_name vertex, model_endpoint = ep,
                  model_description = attr_description vj\<rparr>)"

text \<open>
  The loop of lines 140 to 161 over the vertex stubs, with the two accumulators
  \<^verbatim>\<open>models\<close> and \<^verbatim>\<open>description_dict\<close>. A stub with id \<^verbatim>\<open>'organization'\<close> is skipped before
  any request. The dictionary is keyed by the id found in the fetched document
  (\<^verbatim>\<open>vertex_json['data']['id']\<close>) and a later assignment to a key replaces an earlier one.
\<close>

fun vertex_loop ::
  "env \<Rightarrow> string \<Rightarrow> vertex_stub list \<Rightarrow> model list \<Rightarrow> (string \<rightharpoonup> string)
     \<Rightarrow> error + (model list \<times> (string \<rightharpoonup> string))" where
  "vertex_loop env doc_url [] models description_dict = Inr (models, description_dict)"
| "vertex_loop env doc_url (vertex # rest) models description_dict =
     (if stub_id vertex = ''organization''
      then vertex_loop env doc_url rest models description_dict
      else
        (let vj = get_vertex env (vertex_url doc_url vertex)
         in case model_of vertex vj of
              Inl e \<Rightarrow> Inl e
            | Inr m \<Rightarrow>
                vertex_loop env doc_url rest (models @ [m])
                  (description_dict(data_id vj \<mapsto> model_description m))))"

text \<open>\<^verbatim>\<open>description_dict[key]\<close>: the value stored under the key, or \<^verbatim>\<open>KeyError\<close>.\<close>

definition dict_get :: "('k \<rightharpoonup> 'v) \<Rightarrow> 'k \<Rightarrow> error + 'v" where
  "dict_get d k = (case d k of None \<Rightarrow> Inl KeyError | Some v \<Rightarrow> Inr v)"

text \<open>
  The dictionary built in lines 194 to 199 from an edge. Python evaluates the
  \<^verbatim>\<open>'name'\<close> entry first, so a failing formatter is raised before the lookup is tried.
  \<^verbatim>\<open>
  endpoints.append({
      'name': _underscore_to_camelcase(edge['attributes']['name']),
      'description': description_dict[edge['relationships']['head']['data']['id']]})
  \<close>
\<close>

definition endpoint_of :: "(string \<rightharpoonup> string) \<Rightarrow> edge \<Rightarrow> error + endpoint" where
  "endpoint_of description_dict e =
     (case underscore_to_camelcase (edge_name e) default_repl_char of
        Inl err \<Rightarrow> Inl err
      | Inr n \<Rightarrow>
          (case dict_get description_dict (head_id e) of
             Inl err \<Rightarrow> Inl err
           | Inr d \<Rightarrow> Inr \<lparr>endpoint_name = n, endpoint_description = d\<rparr>))"

text \<open>The loop of lines 190 to 199 over the outbound edges, with the accumulator \<^verbatim>\<open>endpoints\<close>.\<close>

fun edge_loop :: "(string \<rightharpoonup> string) \<Rightarrow> edge list \<Rightarrow> endpoint list \<Rightarrow> error + endpoint list" where
  "edge_loop description_dict [] endpoints = Inr endpoints"
| "edge_loop description_dict (e # rest) endpoints =
     (if head_id e = ''organization''
      then edge_loop description_dict rest endpoints
      else
        (case endpoint_of description_dict e of
           Inl err \<Rightarrow> Inl err
         | Inr ep \<Rightarrow> edge_loop description_dict rest (endpoints @ [ep])))"

text \<open>
  The name of an output file, lines 178 and 219:
  \<^verbatim>\<open>"{}{}{}.py".format(model_path, os.sep, app.replace('-', '_'))\<close>.
\<close>

definition output_file :: "env \<Rightarrow> string \<Rightarrow> string \<Rightarrow> string" where
  "output_file env dir app = dir @ os_sep env @ replace app CHR ''-'' CHR ''_'' @ ''.py''"

text \<open>
  \<^verbatim>\<open>generate\<close> returns nothing; what it does is write files and, possibly, raise. Its
  model takes the files before the call and returns the files after it, together with
  the exception that ended it, if any. Opening a file with mode \<^verbatim>\<open>'w'\<close> and writing to it
  replaces the whole content; a file that cannot be opened or written is outside the
  model, as is logging. The steps are in the source's order: the application
  name, the root document, the vertex loop, the model template and the model file,
  the edge loop, the endpoint template and the endpoint file.
\<close>

definition generate :: "env \<Rightarrow> string \<Rightarrow> string \<Rightarrow> string \<Rightarrow> files \<Rightarrow> files \<times> error option" where
  "generate env doc_url endpoint_path model_path fs =
     (case resolve_app doc_url of
        Inl e \<Rightarrow> (fs, Some e)
      | Inr app \<Rightarrow>
     (let doc = get_doc env doc_url
      in case vertex_loop env doc_url (vertices doc) [] Map.empty of
        Inl e \<Rightarrow> (fs, Some e)
      | Inr (models, description_dict) \<Rightarrow>
     (case underscore_to_camelcase app CHR ''-'' of
        Inl e \<Rightarrow> (fs, Some e)
      | Inr model_app \<Rightarrow>
     (let model_output = render_models env model_app models;
          fs1 = fs(output_file env model_path app \<mapsto> model_output)
      in case edge_loop description_dict (outbound_edges doc) [] of
        Inl e \<Rightarrow> (fs1, Some e)
      | Inr endpoints \<Rightarrow>
     (case underscore_to_camelcase app CHR ''-'' of
        Inl e \<Rightarrow> (fs1, Some e)
      | Inr endpoint_app \<Rightarrow>
     (let endpoint_output = render_endpoints env endpoint_app endpoints
      in (fs1(output_file env endpoint_path app \<mapsto> endpoint_output), None)))))))"

subsection \<open>Notions used to state the properties\<close>

text \<open>
  The specification's words for the name formatter: the first character and each
  character following a delimiter are uppercased, and the delimiters are removed.
  \<open>capitalise_after d b s\<close> uppercases the first character of \<open>s\<close> when \<open>b\<close> holds, and
  every character that follows an occurrence of \<open>d\<close>.
\<close>

fun capitalise_after :: "char \<Rightarrow> bool \<Rightarrow> string \<Rightarrow> string" where
  "capitalise_after d b [] = []"
| "capitalise_after d b (c # cs) = (if b then upper c else c) # capitalise_after d (c = d) cs"

definition pascal_case :: "string \<Rightarrow> char \<Rightarrow> string" where
  "pascal_case s d = filter (\<lambda>c. c \<noteq> d) (capitalise_after d True s)"

text \<open>The declared vertices and edges without those of the \<^verbatim>\<open>organization\<close> vertex.\<close>

definition kept_vertices :: "vertex_stub list \<Rightarrow> vertex_stub list" where
  "kept_vertices vs = filter (\<lambda>v. stub_id v \<noteq> ''organization'') vs"

definition kept_edges :: "edge list \<Rightarrow> edge list" where
  "kept_edges es = filter (\<lambda>e. head_id e \<noteq> ''organization'') es"

definition without_organization :: "doc_json \<Rightarrow> doc_json" where
  "without_organization doc =
     \<lparr>vertices = kept_vertices (vertices doc), outbound_edges = kept_edges (outbound_edges doc)\<rparr>"

text \<open>
  The assignments \<^verbatim>\<open>description_dict[vertex_json['data']['id']] = ...\<close> of a vertex
  pass, in the order they are made: the id and the description of each fetched document.
\<close>

definition recorded :: "env \<Rightarrow> string \<Rightarrow> vertex_stub list \<Rightarrow> (string \<times> string) list" where
  "recorded env doc_url vs =
     map (\<lambda>v. (data_id (get_vertex env (vertex_url doc_url v)),
                attr_description (get_vertex env (vertex_url doc_url v))))
       (kept_vertices vs)"

subsection \<open>A small documentation graph\<close>

text \<open>
  The graph of the specification's scenarios, used to instantiate the theorems: a
  vertex \<^verbatim>\<open>person\<close> whose path goes on after \<^verbatim>\<open>v2\<close>, a vertex \<^verbatim>\<open>root\<close> whose path ends at
  \<^verbatim>\<open>v2\<close>, the \<^verbatim>\<open>organization\<close> vertex, and an entry with one edge to each of \<^verbatim>\<open>person\<close> and
  \<^verbatim>\<open>organization\<close>. The renderers stand for the templates: they list the names.
\<close>

definition example_url :: string where
  "example_url = ''https://api.planningcenteronline.com/people/v2/documentation/2018-08-01''"

definition example_doc :: doc_json where
  "example_doc =
     \<lparr>vertices =
        [\<lparr>stub_id = ''person'', stub_name = ''People''\<rparr>,
         \<lparr>stub_id = ''organization'', stub_name = ''Organization''\<rparr>,
         \<lparr>stub_id = ''root'', stub_name = ''Root''\<rparr>],
      outbound_edges =
        [\<lparr>edge_name = ''list_people'', head_id = ''person''\<rparr>,
         \<lparr>edge_name = ''organization'', head_id = ''organization''\<rparr>]\<rparr>"

definition example_vertex :: "string \<Rightarrow> vertex_json" where
  "example_vertex url =
     (if url = example_url @ ''/vertices/person''
      then \<lparr>data_id = ''person'',
            attr_path = ''https://api.planningcenteronline.com/people/v2/people'',
            attr_description = ''A person''\<rparr>
      else \<lparr>data_id = ''root'',
            attr_path = ''https://api.planningcenteronline.com/people/v2'',
            attr_description = ''The root''\<rparr>)"

definition example_env :: env where
  "example_env =
     \<lparr>get_doc = (\<lambda>url. example_doc),
      get_vertex = example_vertex,
      render_models = (\<lambda>app models. app @ '' models:'' @ concat (map (\<lambda>m. CHR '' '' # model_name m) models)),
      render_endpoints = (\<lambda>app endpoints. app @ '' endpoints:'' @ concat (map (\<lambda>e. CHR '' '' # endpoint_name e) endpoints)),
      os_sep = ''/''\<rparr>"

definition example_models :: "model list" where
  "example_models =
     [\<lparr>model_name = ''People'', model_endpoint = ''people'', model_description = ''A person''\<rparr>,
      \<lparr>model_name = ''Root'', model_endpoint = '''', model_description = ''The root''\<rparr>]"

definition example_dict :: "string \<rightharpoonup> string" where
  "example_dict = [''person'' \<mapsto> ''A person'', ''root'' \<mapsto> ''The root'']"

definition example_endpoints :: "endpoint list" where
  "example_endpoints = [\<lparr>endpoint_name = ''ListPeople'', endpoint_description = ''A person''\<rparr>]"

text \<open>The same graph with one more edge, whose head was never fetched.\<close>

definition dangling_edges :: "edge list" where
  "dangling_edges =
     [\<lparr>edge_name = ''list_people'', head_id = ''person''\<rparr>,
      \<lparr>edge_name = ''list_emails'', head_id = ''email''\<rparr>]"

definition dangling_env :: env where
  "dangling_env = example_env\<lparr>get_doc := \<lambda>url. example_doc\<lparr>outbound_edges := dangling_edges\<rparr>\<rparr>"

definition old_files :: files where
  "old_files = [''out/models/people.py'' \<mapsto> ''old models'', ''out/endpoints/people.py'' \<mapsto> ''old endpoints'']"

section \<open>Properties\<close>

subsection \<open>Lists, strings and the formatter's loop\<close>

lemma list_index_append:
  "x \<notin> set pre \<Longrightarrow> list_index (pre @ x # post) x = Inr (length pre)"
  by (induction pre) auto

lemma list_index_absent: "x \<notin> set xs \<Longrightarrow> list_index xs x = Inl ValueError"
  by (induction xs) auto

lemma list_index_Inl: "list_index xs x = Inl e \<Longrightarrow> x \<notin> set xs \<and> e = ValueError"
  by (induction xs) (auto split: if_splits sum.splits)

lemma list_index_Inr:
  "list_index xs x = Inr i \<Longrightarrow> \<exists>pre post. xs = pre @ x # post \<and> x \<notin> set pre \<and> i = length pre"
proof (induction xs arbitrary: i)
  case Nil
  then show ?case by simp
next
  case (Cons y ys)
  show ?case
  proof (cases "y = x")
    case True
    with Cons.prems have "y # ys = [] @ x # ys \<and> x \<notin> set [] \<and> i = length ([] :: 'a list)"
      by simp
    then show ?thesis by blast
  next
    case False
    with Cons.prems obtain j where j: "list_index ys x = Inr j" and i: "i = Suc j"
      by (auto split: sum.splits)
    from Cons.IH [OF j] obtain pre post where "ys = pre @ x # post" "x \<notin> set pre" "j = length pre"
      by blast
    with False i have "y # ys = (y # pre) @ x # post \<and> x \<notin> set (y # pre) \<and> i = length (y # pre)"
      by simp
    then show ?thesis by blast
  qed
qed

lemma upper_changes: "upper c \<noteq> c \<Longrightarrow> c \<in> set lowercase \<and> upper c \<in> set uppercase"
  unfolding upper_def
  by (auto split: option.splits dest!: map_of_SomeD dest: set_zip_leftD set_zip_rightD)

lemma upper_eq_delim: "\<not> is_letter d \<Longrightarrow> (upper c = d) = (c = d)"
  using upper_changes [of c] upper_changes [of d] unfolding is_letter_def by metis

lemma while_true_stop: "d \<notin> set xs \<Longrightarrow> while_true xs d = (xs, ValueError)"
  by (subst while_true.simps) (simp add: list_index_absent)

lemma while_true_trail: "d \<notin> set pre \<Longrightarrow> while_true (pre @ [d]) d = (pre, IndexError)"
  by (subst while_true.simps) (simp add: list_index_append list_del_def list_get_def)

lemma while_true_step:
  "d \<notin> set pre \<Longrightarrow> while_true (pre @ d # r # rs) d = while_true (pre @ upper r # rs) d"
  by (subst while_true.simps)
     (simp add: list_index_append list_del_def list_get_def list_set_def nth_append)

lemma capitalise_after_clean:
  "d \<notin> set pre \<Longrightarrow> capitalise_after d False (pre @ ys) = pre @ capitalise_after d False ys"
  by (induction pre) auto

lemma while_true_ok:
  assumes "\<not> is_letter d"
  shows "xs = [] \<or> last xs \<noteq> d \<Longrightarrow>
    while_true xs d = (filter (\<lambda>c. c \<noteq> d) (capitalise_after d False xs), ValueError)"
proof (induction "length xs" arbitrary: xs rule: less_induct)
  case less
  show ?case
  proof (cases "d \<in> set xs")
    case False
    then have "filter (\<lambda>c. c \<noteq> d) (capitalise_after d False xs) = xs"
      using capitalise_after_clean [of d xs "[]"] by (auto simp: filter_id_conv)
    with False show ?thesis by (simp add: while_true_stop)
  next
    case True
    then obtain pre rest where xs: "xs = pre @ d # rest" and pre: "d \<notin> set pre"
      by (meson split_list_first)
    from less.prems xs obtain r rs where rest: "rest = r # rs"
      by (cases rest) auto
    let ?ys = "pre @ upper r # rs"
    have last: "?ys = [] \<or> last ?ys \<noteq> d"
      using less.prems xs rest upper_eq_delim [OF assms] by (cases rs) auto
    have "while_true xs d = while_true ?ys d"
      using pre by (simp add: xs rest while_true_step)
    also have "\<dots> = (filter (\<lambda>c. c \<noteq> d) (capitalise_after d False ?ys), ValueError)"
      using less.hyps [of ?ys] last by (simp add: xs rest)
    also have "filter (\<lambda>c. c \<noteq> d) (capitalise_after d False ?ys)
        = filter (\<lambda>c. c \<noteq> d) (capitalise_after d False xs)"
      using pre upper_eq_delim [OF assms] by (simp add: xs rest capitalise_after_clean)
    finally show ?thesis .
  qed
qed

lemma while_true_fail:
  assumes "\<not> is_letter d"
  shows "xs \<noteq> [] \<Longrightarrow> last xs = d \<Longrightarrow> snd (while_true xs d) = IndexError"
proof (induction "length xs" arbitrary: xs rule: less_induct)
  case less
  then have "d \<in> set xs" using last_in_set by blast
  then obtain pre rest where xs: "xs = pre @ d # rest" and pre: "d \<notin> set pre"
    by (meson split_list_first)
  show ?case
  proof (cases rest)
    case Nil
    with pre show ?thesis by (simp add: xs while_true_trail)
  next
    case (Cons r rs)
    let ?ys = "pre @ upper r # rs"
    have "last ?ys = d"
      using less.prems xs Cons upper_eq_delim [OF assms] by (cases rs) auto
    then have "snd (while_true ?ys d) = IndexError"
      using less.hyps [of ?ys] by (simp add: xs Cons)
    with pre show ?thesis by (simp add: xs Cons while_true_step)
  qed
qed

lemma underscore_to_camelcase_Nil: "underscore_to_camelcase [] d = Inl IndexError"
  by (simp add: underscore_to_camelcase_def list_get_def)

lemma underscore_to_camelcase_Cons:
  "underscore_to_camelcase (c # cs) d =
     (case while_true (upper c # cs) d of (string', e) \<Rightarrow> if e = ValueError then Inr string' else Inl e)"
  by (simp add: underscore_to_camelcase_def list_get_def list_set_def)

lemma formatter_pascal:
  assumes "\<not> is_letter d" "s \<noteq> []" "last s \<noteq> d" "ascii s"
  shows "underscore_to_camelcase s d = Inr (pascal_case s d)"
proof -
  from assms obtain c cs where s: "s = c # cs" by (cases s) auto
  have "last (upper c # cs) \<noteq> d"
    using assms(3) upper_eq_delim [OF assms(1)] by (auto simp: s split: if_splits)
  then have "while_true (upper c # cs) d
      = (filter (\<lambda>c. c \<noteq> d) (capitalise_after d False (upper c # cs)), ValueError)"
    using while_true_ok [OF assms(1)] by blast
  then show ?thesis
    using upper_eq_delim [OF assms(1)]
    by (simp add: s underscore_to_camelcase_Cons pascal_case_def)
qed

lemma formatter_trailing:
  assumes "\<not> is_letter d" "s \<noteq> []" "last s = d"
  shows "underscore_to_camelcase s d = Inl IndexError"
proof -
  from assms obtain c cs where s: "s = c # cs" by (cases s) auto
  have "last (upper c # cs) = d"
    using assms(3) upper_eq_delim [OF assms(1)] by (auto simp: s split: if_splits)
  then have "snd (while_true (upper c # cs) d) = IndexError"
    using while_true_fail [OF assms(1), of "upper c # cs"] by simp
  then show ?thesis
    by (cases "while_true (upper c # cs) d") (simp add: s underscore_to_camelcase_Cons)
qed


subsection \<open>The application name and the endpoint of a path\<close>

lemma split_nonempty: "split s sep \<noteq> []"
  by (induction s) (auto split: list.splits)

lemma list_get_last: "xs \<noteq> [] \<Longrightarrow> list_get xs (- 1) = Inr (last xs)"
  by (simp add: list_get_def last_conv_nth nat_diff_distrib' Suc_leI) 

lemma list_get_nat: "list_get xs (int i) = (if i < length xs then Inr (xs ! i) else Inl IndexError)"
  by (simp add: list_get_def)

lemma resolve_app_absent:
  "''v2'' \<notin> set (split doc_url CHR ''/'') \<Longrightarrow> resolve_app doc_url = Inl ValueError"
  by (simp add: resolve_app_def list_index_absent)

lemma resolve_app_preceding:
  assumes "split doc_url CHR ''/'' = pre @ a # ''v2'' # post" and "''v2'' \<notin> set (pre @ [a])"
  shows "resolve_app doc_url = Inr a"
proof -
  have "list_index (split doc_url CHR ''/'') ''v2'' = Inr (length (pre @ [a]))"
    using list_index_append [OF assms(2), of post] assms(1) by simp
  then show ?thesis
    using assms(1) by (simp add: resolve_app_def list_get_nat nth_append)
qed

lemma resolve_app_first:
  assumes "split doc_url CHR ''/'' = ''v2'' # rest"
  shows "resolve_app doc_url = Inr (last (''v2'' # rest))"
  using assms list_get_last [of "''v2'' # rest"] by (simp add: resolve_app_def)

lemma resolve_app_Inl:
  assumes "resolve_app doc_url = Inl e"
  shows "''v2'' \<notin> set (split doc_url CHR ''/'') \<and> e = ValueError"
proof (cases "list_index (split doc_url CHR ''/'') ''v2''")
  case (Inl e')
  with assms list_index_Inl [OF Inl] show ?thesis by (simp add: resolve_app_def)
next
  case (Inr i)
  from list_index_Inr [OF Inr] obtain pre post
    where sp: "split doc_url CHR ''/'' = pre @ ''v2'' # post" and i: "i = length pre" by blast
  show ?thesis
  proof (cases pre rule: rev_cases)
    case Nil
    with sp resolve_app_first [of doc_url post] assms show ?thesis by simp
  next
    case (snoc pre' a)
    with sp i Inr assms show ?thesis
      by (simp add: resolve_app_def list_get_nat)
  qed
qed

lemma endpoint_of_path_last:
  "path \<noteq> [] \<Longrightarrow> last path = ''v2'' \<Longrightarrow> endpoint_of_path path = Inr ''''"
  by (simp add: endpoint_of_path_def list_get_last)

lemma endpoint_of_path_after:
  assumes "path = pre @ ''v2'' # x # post" "''v2'' \<notin> set pre" "last path \<noteq> ''v2''"
  shows "endpoint_of_path path = Inr x"
proof -
  have "list_get path (int (length pre) + 1) = list_get path (int (Suc (length pre)))"
    by (simp add: add.commute)
  also have "\<dots> = Inr x"
    unfolding list_get_nat using assms(1) by (simp add: nth_append)
  finally show ?thesis
    using assms list_get_last [of path] list_index_append [OF assms(2), of "x # post"]
    by (simp add: endpoint_of_path_def)
qed

lemma endpoint_of_path_Inr:
  assumes "endpoint_of_path path = Inr ep" "path \<noteq> []" "last path \<noteq> ''v2''"
  shows "\<exists>pre post. path = pre @ ''v2'' # ep # post \<and> ''v2'' \<notin> set pre"
proof -
  from assms obtain i where i: "list_index path ''v2'' = Inr i"
    by (auto simp: endpoint_of_path_def list_get_last split: sum.splits)
  from list_index_Inr [OF i] obtain pre post
    where p: "path = pre @ ''v2'' # post" "''v2'' \<notin> set pre" by blast
  with assms(3) obtain x post' where "post = x # post'" by (cases post) auto
  with p endpoint_of_path_after [of path pre x post'] assms show ?thesis by auto
qed

lemma endpoint_of_path_Inl:
  assumes "endpoint_of_path path = Inl e" "path \<noteq> []"
  shows "''v2'' \<notin> set path \<and> e = ValueError"
proof (cases "list_index path ''v2''")
  case (Inl e')
  with assms list_index_Inl [OF Inl] show ?thesis
    by (auto simp: endpoint_of_path_def list_get_last split: if_splits)
next
  case (Inr i)
  from list_index_Inr [OF Inr] obtain pre post
    where p: "path = pre @ ''v2'' # post" "''v2'' \<notin> set pre" by blast
  show ?thesis
  proof (cases post)
    case Nil
    with p assms endpoint_of_path_last [of path] show ?thesis by simp
  next
    case (Cons x post')
    show ?thesis
    proof (cases "last path = ''v2''")
      case True
      with assms endpoint_of_path_last [of path] show ?thesis by simp
    next
      case False
      with p Cons endpoint_of_path_after [of path pre x post'] assms show ?thesis by simp
    qed
  qed
qed


subsection \<open>The two passes over the graph\<close>

lemma kept_vertices_simps [simp]:
  "kept_vertices [] = []"
  "kept_vertices (v # vs) =
     (if stub_id v = ''organization'' then kept_vertices vs else v # kept_vertices vs)"
  by (simp_all add: kept_vertices_def)

lemma kept_edges_simps [simp]:
  "kept_edges [] = []"
  "kept_edges (e # es) =
     (if head_id e = ''organization'' then kept_edges es else e # kept_edges es)"
  by (simp_all add: kept_edges_def)

lemma set_kept_edges: "set (kept_edges es) = {e \<in> set es. head_id e \<noteq> ''organization''}"
  by (auto simp: kept_edges_def)

lemma while_true_error:
  "snd (while_true xs d) = ValueError \<or> snd (while_true xs d) = IndexError"
proof (induction "length xs" arbitrary: xs rule: less_induct)
  case less
  show ?case
  proof (cases "d \<in> set xs")
    case False
    then show ?thesis by (simp add: while_true_stop)
  next
    case True
    then obtain pre rest where xs: "xs = pre @ d # rest" and pre: "d \<notin> set pre"
      by (meson split_list_first)
    show ?thesis
    proof (cases rest)
      case Nil
      with pre show ?thesis by (simp add: xs while_true_trail)
    next
      case (Cons r rs)
      with pre less [of "pre @ upper r # rs"] show ?thesis
        by (simp add: xs while_true_step)
    qed
  qed
qed

lemma underscore_to_camelcase_Inl:
  assumes "underscore_to_camelcase s d = Inl e"
  shows "e = IndexError"
proof (cases s)
  case Nil
  with assms show ?thesis by (simp add: underscore_to_camelcase_Nil)
next
  case (Cons c cs)
  with assms while_true_error [of "upper c # cs" d] show ?thesis
    by (cases "while_true (upper c # cs) d")
       (auto simp: underscore_to_camelcase_Cons split: if_splits)
qed

lemma model_of_Inr:
  assumes "model_of v vj = Inr m"
  shows "model_name m = stub_name v" and "model_description m = attr_description vj"
    and "endpoint_of_path (split (attr_path vj) CHR ''/'') = Inr (model_endpoint m)"
  using assms by (auto simp: model_of_def Let_def split: sum.splits)

lemma vertex_loop_skip:
  "vertex_loop env doc_url (kept_vertices vs) models dd
     = vertex_loop env doc_url vs models dd"
  by (induction vs arbitrary: models dd) (auto simp: Let_def split: sum.splits)

lemma vertex_loop_Inr:
  "vertex_loop env doc_url vs models dd = Inr (models', dd') \<Longrightarrow>
     \<exists>new. models' = models @ new \<and>
       list_all2 (\<lambda>v m. model_of v (get_vertex env (vertex_url doc_url v)) = Inr m)
         (kept_vertices vs) new"
proof (induction vs arbitrary: models dd)
  case Nil
  then show ?case by simp
next
  case (Cons v vs)
  show ?case
  proof (cases "stub_id v = ''organization''")
    case True
    with Cons show ?thesis by simp
  next
    case False
    let ?vj = "get_vertex env (vertex_url doc_url v)"
    from False Cons.prems obtain m where m: "model_of v ?vj = Inr m"
      and rest: "vertex_loop env doc_url vs (models @ [m]) (dd(data_id ?vj \<mapsto> model_description m))
                   = Inr (models', dd')"
      by (auto simp: Let_def split: sum.splits)
    from Cons.IH [OF rest] obtain new where "models' = (models @ [m]) @ new"
      and "list_all2 (\<lambda>v m. model_of v (get_vertex env (vertex_url doc_url v)) = Inr m)
         (kept_vertices vs) new"
      by blast
    with False m have "models' = models @ (m # new) \<and>
       list_all2 (\<lambda>v m. model_of v (get_vertex env (vertex_url doc_url v)) = Inr m)
         (kept_vertices (v # vs)) (m # new)"
      by simp
    then show ?thesis by blast
  qed
qed

lemma vertex_loop_dict:
  "vertex_loop env doc_url vs models dd = Inr (models', dd') \<Longrightarrow>
     dd' = dd ++ map_of (rev (recorded env doc_url vs))"
proof (induction vs arbitrary: models dd)
  case Nil
  then show ?case by (simp add: recorded_def)
next
  case (Cons v vs)
  show ?case
  proof (cases "stub_id v = ''organization''")
    case True
    with Cons show ?thesis by (simp add: recorded_def)
  next
    case False
    let ?vj = "get_vertex env (vertex_url doc_url v)"
    from False Cons.prems obtain m where m: "model_of v ?vj = Inr m"
      and rest: "vertex_loop env doc_url vs (models @ [m]) (dd(data_id ?vj \<mapsto> model_description m))
                   = Inr (models', dd')"
      by (auto simp: Let_def split: sum.splits)
    from Cons.IH [OF rest] model_of_Inr(2) [OF m] False show ?thesis
      by (auto simp: recorded_def map_add_def fun_eq_iff split: option.splits)
  qed
qed

lemma edge_loop_skip:
  "edge_loop dd (kept_edges es) endpoints = edge_loop dd es endpoints"
  by (induction es arbitrary: endpoints) (auto split: sum.splits)

lemma edge_loop_Inr:
  "edge_loop dd es endpoints = Inr endpoints' \<Longrightarrow>
     \<exists>new. endpoints' = endpoints @ new \<and>
       list_all2 (\<lambda>e ep. endpoint_of dd e = Inr ep)
         (kept_edges es) new"
proof (induction es arbitrary: endpoints)
  case Nil
  then show ?case by simp
next
  case (Cons e es)
  show ?case
  proof (cases "head_id e = ''organization''")
    case True
    with Cons show ?thesis by simp
  next
    case False
    from False Cons.prems obtain ep where ep: "endpoint_of dd e = Inr ep"
      and rest: "edge_loop dd es (endpoints @ [ep]) = Inr endpoints'"
      by (auto split: sum.splits)
    from Cons.IH [OF rest] obtain new where "endpoints' = (endpoints @ [ep]) @ new"
      and "list_all2 (\<lambda>e ep. endpoint_of dd e = Inr ep)
         (kept_edges es) new"
      by blast
    with False ep have "endpoints' = endpoints @ (ep # new) \<and>
       list_all2 (\<lambda>e ep. endpoint_of dd e = Inr ep)
         (kept_edges (e # es)) (ep # new)"
      by simp
    then show ?thesis by blast
  qed
qed

lemma edge_loop_Inl:
  "edge_loop dd es endpoints = Inl err \<Longrightarrow>
     \<exists>e \<in> set es. head_id e \<noteq> ''organization'' \<and> endpoint_of dd e = Inl err"
  by (induction es arbitrary: endpoints) (auto split: sum.splits if_splits)

lemma endpoint_of_Inr:
  assumes "endpoint_of dd e = Inr ep"
  shows "underscore_to_camelcase (edge_name e) default_repl_char = Inr (endpoint_name ep)"
    and "dd (head_id e) = Some (endpoint_description ep)"
  using assms by (auto simp: endpoint_of_def dict_get_def split: sum.splits option.splits)

lemma endpoint_of_Inl:
  assumes "endpoint_of dd e = Inl err"
  shows "underscore_to_camelcase (edge_name e) default_repl_char = Inl IndexError \<and> err = IndexError
     \<or> (\<exists>n. underscore_to_camelcase (edge_name e) default_repl_char = Inr n)
          \<and> dd (head_id e) = None \<and> err = KeyError"
  using assms underscore_to_camelcase_Inl [of "edge_name e" default_repl_char]
  by (auto simp: endpoint_of_def dict_get_def split: sum.splits option.splits)

lemma edge_loop_missing:
  assumes "e \<in> set es" "head_id e \<noteq> ''organization''" "dd (head_id e) = None"
  shows "\<exists>err. edge_loop dd es endpoints = Inl err"
proof (cases "edge_loop dd es endpoints")
  case (Inl err)
  then show ?thesis by blast
next
  case (Inr endpoints')
  define F where "F = kept_edges es"
  from edge_loop_Inr [OF Inr] obtain new where
    all: "list_all2 (\<lambda>e ep. endpoint_of dd e = Inr ep) F new"
    unfolding F_def by blast
  from assms have "e \<in> set F" by (simp add: F_def set_kept_edges)
  then obtain i where i: "i < length F" "F ! i = e"
    by (meson in_set_conv_nth)
  from list_all2_nthD [OF all i(1)] i(2) have "endpoint_of dd e = Inr (new ! i)"
    by simp
  with endpoint_of_Inr(2) [of dd e "new ! i"] assms(3) show ?thesis by simp
qed

lemma generate_app_failure:
  assumes "resolve_app doc_url = Inr app"
    and "vertex_loop env doc_url (vertices (get_doc env doc_url)) [] Map.empty = Inr (models, dd)"
    and "underscore_to_camelcase app CHR ''-'' = Inl err"
  shows "generate env doc_url endpoint_path model_path fs = (fs, Some err)"
  using assms by (simp add: generate_def Let_def)

lemma generate_edge_failure:
  assumes "resolve_app doc_url = Inr app"
    and "vertex_loop env doc_url (vertices (get_doc env doc_url)) [] Map.empty = Inr (models, dd)"
    and "underscore_to_camelcase app CHR ''-'' = Inr model_app"
    and "edge_loop dd (outbound_edges (get_doc env doc_url)) [] = Inl err"
  shows "generate env doc_url endpoint_path model_path fs
     = (fs(output_file env model_path app \<mapsto> render_models env model_app models), Some err)"
  using assms by (simp add: generate_def Let_def)

lemma generate_success:
  assumes "resolve_app doc_url = Inr app"
    and "vertex_loop env doc_url (vertices (get_doc env doc_url)) [] Map.empty = Inr (models, dd)"
    and "underscore_to_camelcase app CHR ''-'' = Inr app_name"
    and "edge_loop dd (outbound_edges (get_doc env doc_url)) [] = Inr endpoints"
  shows "generate env doc_url endpoint_path model_path fs
     = (fs(output_file env model_path app \<mapsto> render_models env app_name models,
           output_file env endpoint_path app \<mapsto> render_endpoints env app_name endpoints), None)"
  using assms by (simp add: generate_def Let_def)

lemma generate_without_organization:
  "generate (env\<lparr>get_doc := \<lambda>u. without_organization (get_doc env u)\<rparr>) doc_url endpoint_path model_path fs
     = generate env doc_url endpoint_path model_path fs"
proof -
  let ?env = "env\<lparr>get_doc := \<lambda>u. without_organization (get_doc env u)\<rparr>"
  have v: "vertex_loop (env\<lparr>get_doc := g\<rparr>) doc_url vs models dd
      = vertex_loop env doc_url vs models dd" for g vs models dd
    by (induction vs arbitrary: models dd) (auto simp: Let_def split: sum.splits)
  show ?thesis
    by (simp add: generate_def Let_def without_organization_def v vertex_loop_skip
        edge_loop_skip output_file_def cong: sum.case_cong prod.case_cong)
qed

lemma generate_returns:
  assumes "generate env doc_url endpoint_path model_path fs = (fs', None)"
  shows "\<exists>app app_name models dd endpoints.
      resolve_app doc_url = Inr app \<and>
      underscore_to_camelcase app CHR ''-'' = Inr app_name \<and>
      vertex_loop env doc_url (vertices (get_doc env doc_url)) [] Map.empty = Inr (models, dd) \<and>
      edge_loop dd (outbound_edges (get_doc env doc_url)) [] = Inr endpoints \<and>
      fs' = fs(output_file env model_path app \<mapsto> render_models env app_name models,
               output_file env endpoint_path app \<mapsto> render_endpoints env app_name endpoints)"
  using assms by (auto simp: generate_def Let_def split: sum.splits prod.splits)

subsection \<open>The example graph, evaluated\<close>

lemma not_letter_underscore: "\<not> is_letter CHR ''_''"
  by (simp add: is_letter_def lowercase_def uppercase_def)

lemma not_letter_dash: "\<not> is_letter CHR ''-''"
  by (simp add: is_letter_def lowercase_def uppercase_def)

lemma example_resolve_app: "resolve_app example_url = Inr ''people''"
  by (simp add: resolve_app_def example_url_def list_get_def)

lemma example_vertex_loop:
  "vertex_loop example_env example_url (vertices example_doc) [] Map.empty
     = Inr (example_models, example_dict)"
  by (simp add: example_env_def example_doc_def example_vertex_def example_url_def
      example_models_def example_dict_def vertex_url_def model_of_def endpoint_of_path_def
      list_get_def)

lemma dangling_vertex_loop:
  "vertex_loop dangling_env example_url (vertices (get_doc dangling_env example_url)) []
     Map.empty = Inr (example_models, example_dict)"
  by (simp add: dangling_env_def example_env_def example_doc_def example_vertex_def
      example_url_def example_models_def example_dict_def vertex_url_def model_of_def
      endpoint_of_path_def list_get_def)

lemma example_app_name: "underscore_to_camelcase ''people'' CHR ''-'' = Inr ''People''"
  using formatter_pascal [OF not_letter_dash, of "''people''"]
  by (simp add: ascii_def pascal_case_def upper_def lowercase_def uppercase_def)

lemma example_list_people:
  "underscore_to_camelcase ''list_people'' default_repl_char = Inr ''ListPeople''"
  using formatter_pascal [OF not_letter_underscore, of "''list_people''"]
  by (simp add: ascii_def default_repl_char_def pascal_case_def upper_def lowercase_def
      uppercase_def)

lemma example_list_emails:
  "underscore_to_camelcase ''list_emails'' default_repl_char = Inr ''ListEmails''"
  using formatter_pascal [OF not_letter_underscore, of "''list_emails''"]
  by (simp add: ascii_def default_repl_char_def pascal_case_def upper_def lowercase_def
      uppercase_def)

lemma consecutive_delimiters_collapse:
  "underscore_to_camelcase ''a__b'' default_repl_char = Inr ''AB''"
  using formatter_pascal [OF not_letter_underscore, of "''a__b''"]
  by (simp add: ascii_def default_repl_char_def pascal_case_def upper_def lowercase_def
      uppercase_def)

lemma example_edge_loop:
  "edge_loop example_dict (outbound_edges example_doc) [] = Inr example_endpoints"
  by (simp add: example_doc_def example_dict_def example_endpoints_def endpoint_of_def
      dict_get_def example_list_people)

lemma dangling_edge_loop: "edge_loop example_dict dangling_edges [] = Inl KeyError"
  by (simp add: dangling_edges_def example_dict_def endpoint_of_def dict_get_def
      example_list_people example_list_emails)

text \<open>
  A path can hold \<^verbatim>\<open>'v2'\<close> more than once. What decides is its last piece: a path that
  ends at \<^verbatim>\<open>'v2'\<close> has the empty endpoint even when an earlier \<^verbatim>\<open>'v2'\<close> is followed by a
  piece, and a path that does not end at \<^verbatim>\<open>'v2'\<close> has the piece after the first \<^verbatim>\<open>'v2'\<close>.
\<close>

lemma endpoint_of_path_v2_twice:
  "endpoint_of_path (split ''people/v2/emails/v2'' CHR ''/'') = Inr ''''"
  "endpoint_of_path (split ''people/v2/emails/v2/1'' CHR ''/'') = Inr ''emails''"
  by (simp_all add: endpoint_of_path_def list_get_def)

section \<open>The claims\<close>

text \<open>
  C1. For every vertex document whose \<^verbatim>\<open>path\<close> attribute, split on \<^verbatim>\<open>'/'\<close>, ends at the
  segment \<^verbatim>\<open>'v2'\<close>, the endpoint field of the model that \<^verbatim>\<open>generate\<close> builds is the empty
  string; for every path in which something follows \<^verbatim>\<open>'v2'\<close> (the path holds \<^verbatim>\<open>'v2'\<close> and
  does not end at it), the endpoint field is the segment right after the first
  occurrence of \<^verbatim>\<open>'v2'\<close>. The first two parts say which dictionary is built from a stub
  and its document; the third says that the models of a completed vertex pass carry
  these endpoint fields, vertex by vertex.
\<close>

theorem endpoint_field_of_path:
  "(last (split (attr_path vj) CHR ''/'') = ''v2'' \<longrightarrow>
      model_of vertex vj
        = Inr \<lparr>model_name = stub_name vertex, model_endpoint = '''',
               model_description = attr_description vj\<rparr>)
   \<and> (split (attr_path vj) CHR ''/'' = pre @ ''v2'' # x # post \<and> ''v2'' \<notin> set pre
        \<and> last (split (attr_path vj) CHR ''/'') \<noteq> ''v2'' \<longrightarrow>
      model_of vertex vj
        = Inr \<lparr>model_name = stub_name vertex, model_endpoint = x,
               model_description = attr_description vj\<rparr>)
   \<and> (vertex_loop env doc_url vs [] Map.empty = Inr (models, dd) \<longrightarrow>
      list_all2
        (\<lambda>v m. let path = split (attr_path (get_vertex env (vertex_url doc_url v))) CHR ''/''
               in (last path = ''v2'' \<longrightarrow> model_endpoint m = '''')
                \<and> (last path \<noteq> ''v2'' \<longrightarrow>
                     (\<exists>pre post. path = pre @ ''v2'' # model_endpoint m # post
                        \<and> ''v2'' \<notin> set pre)))
        (kept_vertices vs) models)"
proof (intro conjI impI)
  assume "last (split (attr_path vj) CHR ''/'') = ''v2''"
  then show "model_of vertex vj
        = Inr \<lparr>model_name = stub_name vertex, model_endpoint = '''',
               model_description = attr_description vj\<rparr>"
    by (simp add: model_of_def endpoint_of_path_last split_nonempty)
next
  assume "split (attr_path vj) CHR ''/'' = pre @ ''v2'' # x # post \<and> ''v2'' \<notin> set pre
        \<and> last (split (attr_path vj) CHR ''/'') \<noteq> ''v2''"
  then have "endpoint_of_path (split (attr_path vj) CHR ''/'') = Inr x"
    using endpoint_of_path_after [of "split (attr_path vj) CHR ''/''" pre x post] by blast
  then show "model_of vertex vj
        = Inr \<lparr>model_name = stub_name vertex, model_endpoint = x,
               model_description = attr_description vj\<rparr>"
    by (simp add: model_of_def)
next
  assume "vertex_loop env doc_url vs [] Map.empty = Inr (models, dd)"
  from vertex_loop_Inr [OF this]
  have all: "list_all2 (\<lambda>v m. model_of v (get_vertex env (vertex_url doc_url v)) = Inr m)
      (kept_vertices vs) models"
    by simp
  show "list_all2
        (\<lambda>v m. let path = split (attr_path (get_vertex env (vertex_url doc_url v))) CHR ''/''
               in (last path = ''v2'' \<longrightarrow> model_endpoint m = '''')
                \<and> (last path \<noteq> ''v2'' \<longrightarrow>
                     (\<exists>pre post. path = pre @ ''v2'' # model_endpoint m # post
                        \<and> ''v2'' \<notin> set pre)))
        (kept_vertices vs) models"
  proof (rule list_all2_mono [OF all])
    fix v m
    let ?path = "split (attr_path (get_vertex env (vertex_url doc_url v))) CHR ''/''"
    assume "model_of v (get_vertex env (vertex_url doc_url v)) = Inr m"
    then have ep: "endpoint_of_path ?path = Inr (model_endpoint m)"
      by (rule model_of_Inr(3))
    have "last ?path = ''v2'' \<longrightarrow> model_endpoint m = ''''"
      using ep endpoint_of_path_last [of ?path] by (simp add: split_nonempty)
    moreover have "last ?path \<noteq> ''v2'' \<longrightarrow>
        (\<exists>pre post. ?path = pre @ ''v2'' # model_endpoint m # post \<and> ''v2'' \<notin> set pre)"
      using endpoint_of_path_Inr [OF ep] by (simp add: split_nonempty)
    ultimately show "let path = ?path
               in (last path = ''v2'' \<longrightarrow> model_endpoint m = '''')
                \<and> (last path \<noteq> ''v2'' \<longrightarrow>
                     (\<exists>pre post. path = pre @ ''v2'' # model_endpoint m # post
                        \<and> ''v2'' \<notin> set pre))"
      by (simp add: Let_def)
  qed
qed

theorem endpoint_field_of_path_witness:
  "model_of \<lparr>stub_id = ''root'', stub_name = ''Root''\<rparr>
       (example_vertex (example_url @ ''/vertices/root''))
     = Inr \<lparr>model_name = ''Root'', model_endpoint = '''', model_description = ''The root''\<rparr>
   \<and> model_of \<lparr>stub_id = ''person'', stub_name = ''People''\<rparr>
       (example_vertex (example_url @ ''/vertices/person''))
     = Inr \<lparr>model_name = ''People'', model_endpoint = ''people'',
            model_description = ''A person''\<rparr>
   \<and> map model_endpoint example_models = [''people'', '''']"
proof -
  let ?root = "example_vertex (example_url @ ''/vertices/root'')"
  let ?person = "example_vertex (example_url @ ''/vertices/person'')"
  have sr: "split (attr_path ?root) CHR ''/''
      = [''https:'', '''', ''api.planningcenteronline.com'', ''people'', ''v2'']"
    by (simp add: example_vertex_def example_url_def)
  have sp: "split (attr_path ?person) CHR ''/''
      = [''https:'', '''', ''api.planningcenteronline.com'', ''people''] @ ''v2'' # ''people'' # []"
    by (simp add: example_vertex_def example_url_def)
  have r: "last (split (attr_path ?root) CHR ''/'') = ''v2''"
    by (simp add: sr)
  have p: "split (attr_path ?person) CHR ''/''
      = [''https:'', '''', ''api.planningcenteronline.com'', ''people''] @ ''v2'' # ''people'' # []
    \<and> ''v2'' \<notin> set [''https:'', '''', ''api.planningcenteronline.com'', ''people'']
    \<and> last (split (attr_path ?person) CHR ''/'') \<noteq> ''v2''"
    using sp by simp
  have a: "model_of \<lparr>stub_id = ''root'', stub_name = ''Root''\<rparr> ?root
     = Inr \<lparr>model_name = ''Root'', model_endpoint = '''', model_description = ''The root''\<rparr>"
    using endpoint_field_of_path
      [where vj = ?root and vertex = "\<lparr>stub_id = ''root'', stub_name = ''Root''\<rparr>",
       THEN conjunct1, rule_format, OF r]
    by (simp add: example_vertex_def example_url_def)
  have b: "model_of \<lparr>stub_id = ''person'', stub_name = ''People''\<rparr> ?person
     = Inr \<lparr>model_name = ''People'', model_endpoint = ''people'',
            model_description = ''A person''\<rparr>"
    using endpoint_field_of_path
      [where vj = ?person and vertex = "\<lparr>stub_id = ''person'', stub_name = ''People''\<rparr>",
       THEN conjunct2, THEN conjunct1, rule_format, OF p]
    by (simp add: example_vertex_def example_url_def)
  have c: "list_all2
        (\<lambda>v m. let path = split (attr_path (get_vertex example_env (vertex_url example_url v))) CHR ''/''
               in (last path = ''v2'' \<longrightarrow> model_endpoint m = '''')
                \<and> (last path \<noteq> ''v2'' \<longrightarrow>
                     (\<exists>pre post. path = pre @ ''v2'' # model_endpoint m # post
                        \<and> ''v2'' \<notin> set pre)))
        (kept_vertices (vertices example_doc)) example_models"
    using endpoint_field_of_path
      [THEN conjunct2, THEN conjunct2, rule_format, OF example_vertex_loop] .
  have "map model_endpoint example_models = [''people'', '''']"
    by (simp add: example_models_def)
  with a b c show ?thesis by simp
qed

text \<open>
  C2. When the vertex pass has completed, \<^verbatim>\<open>description_dict\<close> holds exactly its
  assignments, a later one replacing an earlier one under the same id; every
  endpoint's description is the entry stored under the edge's head id; and if some
  edge whose head is not \<^verbatim>\<open>organization\<close> has a head id without an entry, \<^verbatim>\<open>generate\<close>
  ends with an exception (a \<^verbatim>\<open>LookupError\<close>) instead of putting a value in its place.
  The exception is the \<^verbatim>\<open>KeyError\<close> of the lookup unless the formatter has raised
  before, on the application name or on an edge name.
\<close>

theorem endpoint_description_lookup:
  assumes "resolve_app doc_url = Inr app"
    and "vertex_loop env doc_url (vertices (get_doc env doc_url)) [] Map.empty = Inr (models, dd)"
  shows "dd = map_of (rev (recorded env doc_url (vertices (get_doc env doc_url))))
    \<and> (edge_loop dd (outbound_edges (get_doc env doc_url)) [] = Inr endpoints \<longrightarrow>
         list_all2 (\<lambda>e ep. dd (head_id e) = Some (endpoint_description ep))
           (kept_edges (outbound_edges (get_doc env doc_url))) endpoints)
    \<and> ((\<exists>e \<in> set (outbound_edges (get_doc env doc_url)).
            head_id e \<noteq> ''organization'' \<and> dd (head_id e) = None) \<longrightarrow>
         (\<exists>err. snd (generate env doc_url endpoint_path model_path fs) = Some err
            \<and> is_LookupError err
            \<and> (underscore_to_camelcase app CHR ''-'' \<noteq> Inl IndexError
                 \<and> (\<forall>e \<in> set (outbound_edges (get_doc env doc_url)).
                       head_id e \<noteq> ''organization'' \<longrightarrow>
                       underscore_to_camelcase (edge_name e) default_repl_char \<noteq> Inl IndexError)
                 \<longrightarrow> err = KeyError)))"
proof (intro conjI impI)
  show "dd = map_of (rev (recorded env doc_url (vertices (get_doc env doc_url))))"
    using vertex_loop_dict [OF assms(2)] by simp
next
  assume "edge_loop dd (outbound_edges (get_doc env doc_url)) [] = Inr endpoints"
  from edge_loop_Inr [OF this]
  have "list_all2 (\<lambda>e ep. endpoint_of dd e = Inr ep)
      (kept_edges (outbound_edges (get_doc env doc_url))) endpoints"
    by simp
  then show "list_all2 (\<lambda>e ep. dd (head_id e) = Some (endpoint_description ep))
      (kept_edges (outbound_edges (get_doc env doc_url))) endpoints"
    by (rule list_all2_mono) (rule endpoint_of_Inr(2))
next
  let ?es = "outbound_edges (get_doc env doc_url)"
  let ?names = "\<forall>e \<in> set ?es. head_id e \<noteq> ''organization'' \<longrightarrow>
      underscore_to_camelcase (edge_name e) default_repl_char \<noteq> Inl IndexError"
  assume "\<exists>e \<in> set ?es. head_id e \<noteq> ''organization'' \<and> dd (head_id e) = None"
  then obtain err where err: "edge_loop dd ?es [] = Inl err"
    using edge_loop_missing [of _ ?es dd "[]"] by blast
  from edge_loop_Inl [OF err] obtain e where e: "e \<in> set ?es" "head_id e \<noteq> ''organization''"
    "endpoint_of dd e = Inl err"
    by blast
  have lookup: "is_LookupError err"
    using endpoint_of_Inl [OF e(3)] by (auto simp: is_LookupError_def)
  have key: "?names \<longrightarrow> err = KeyError"
    using endpoint_of_Inl [OF e(3)] e(1,2) by auto
  show "\<exists>err. snd (generate env doc_url endpoint_path model_path fs) = Some err
      \<and> is_LookupError err
      \<and> (underscore_to_camelcase app CHR ''-'' \<noteq> Inl IndexError \<and> ?names \<longrightarrow> err = KeyError)"
  proof (cases "underscore_to_camelcase app CHR ''-''")
    case (Inl e')
    then have "e' = IndexError"
      by (rule underscore_to_camelcase_Inl)
    with Inl have "snd (generate env doc_url endpoint_path model_path fs) = Some IndexError"
      and "underscore_to_camelcase app CHR ''-'' = Inl IndexError"
      using generate_app_failure [OF assms Inl] by simp_all
    then show ?thesis
      by (simp add: is_LookupError_def)
  next
    case (Inr app_name)
    have "snd (generate env doc_url endpoint_path model_path fs) = Some err"
      using generate_edge_failure [OF assms Inr err] by simp
    with lookup key show ?thesis by blast
  qed
qed

theorem endpoint_description_lookup_witness:
  "resolve_app example_url = Inr ''people''
   \<and> example_dict ''person'' = Some ''A person''
   \<and> map endpoint_description example_endpoints = [''A person'']
   \<and> example_dict ''email'' = None
   \<and> snd (generate dangling_env example_url ''out/endpoints'' ''out/models'' old_files)
       = Some KeyError"
proof -
  have doc: "get_doc example_env example_url = example_doc"
    by (simp add: example_env_def)
  have ddoc: "outbound_edges (get_doc dangling_env example_url) = dangling_edges"
    by (simp add: dangling_env_def example_env_def)
  have vl: "vertex_loop example_env example_url (vertices (get_doc example_env example_url)) []
      Map.empty = Inr (example_models, example_dict)"
    using example_vertex_loop by (simp add: doc)
  have el: "edge_loop example_dict (outbound_edges (get_doc example_env example_url)) []
      = Inr example_endpoints"
    using example_edge_loop by (simp add: doc)
  have "list_all2 (\<lambda>e ep. example_dict (head_id e) = Some (endpoint_description ep))
      (kept_edges (outbound_edges (get_doc example_env example_url))) example_endpoints"
    using endpoint_description_lookup [OF example_resolve_app vl,
        THEN conjunct2, THEN conjunct1, rule_format, OF el] .
  then have a: "example_dict ''person'' = Some ''A person''"
    by (simp add: doc example_doc_def example_endpoints_def)
  have missing: "\<exists>e \<in> set (outbound_edges (get_doc dangling_env example_url)).
      head_id e \<noteq> ''organization'' \<and> example_dict (head_id e) = None"
    by (simp add: ddoc dangling_edges_def example_dict_def)
  have names: "underscore_to_camelcase ''people'' CHR ''-'' \<noteq> Inl IndexError
      \<and> (\<forall>e \<in> set (outbound_edges (get_doc dangling_env example_url)).
            head_id e \<noteq> ''organization'' \<longrightarrow>
            underscore_to_camelcase (edge_name e) default_repl_char \<noteq> Inl IndexError)"
    by (simp add: ddoc dangling_edges_def example_app_name example_list_people
        example_list_emails)
  from endpoint_description_lookup [OF example_resolve_app dangling_vertex_loop,
      THEN conjunct2, THEN conjunct2, rule_format, OF missing,
      of "''out/endpoints''" "''out/models''" old_files]
  obtain err where "snd (generate dangling_env example_url ''out/endpoints'' ''out/models'' old_files)
      = Some err"
    and "underscore_to_camelcase ''people'' CHR ''-'' \<noteq> Inl IndexError
      \<and> (\<forall>e \<in> set (outbound_edges (get_doc dangling_env example_url)).
            head_id e \<noteq> ''organization'' \<longrightarrow>
            underscore_to_camelcase (edge_name e) default_repl_char \<noteq> Inl IndexError)
      \<longrightarrow> err = KeyError"
    by blast
  with names have b: "snd (generate dangling_env example_url ''out/endpoints'' ''out/models'' old_files)
      = Some KeyError"
    by simp
  have "example_dict ''email'' = None" and "map endpoint_description example_endpoints = [''A person'']"
    by (simp_all add: example_dict_def example_endpoints_def)
  with a b example_resolve_app show ?thesis by simp
qed

text \<open>
  C3. The models of a completed vertex pass are, position by position, the
  dictionaries built from the declared vertices other than \<^verbatim>\<open>organization\<close>, in the
  order of declaration; the endpoints of a completed edge pass are, position by
  position, the dictionaries built from the declared outbound edges whose head is not
  \<^verbatim>\<open>organization\<close>. Nothing is sorted, dropped or merged: the lists have the lengths of
  the filtered declarations.
\<close>

theorem lists_keep_declaration_order:
  "(vertex_loop env doc_url vs [] Map.empty = Inr (models, dd) \<longrightarrow>
      list_all2 (\<lambda>v m. model_of v (get_vertex env (vertex_url doc_url v)) = Inr m)
        (kept_vertices vs) models
      \<and> map model_name models = map stub_name (kept_vertices vs))
   \<and> (edge_loop dict es [] = Inr endpoints \<longrightarrow>
      list_all2 (\<lambda>e ep. endpoint_of dict e = Inr ep) (kept_edges es) endpoints
      \<and> map (\<lambda>ep. Inr (endpoint_name ep)) endpoints
          = map (\<lambda>e. underscore_to_camelcase (edge_name e) default_repl_char) (kept_edges es))"
proof (intro conjI impI)
  assume "vertex_loop env doc_url vs [] Map.empty = Inr (models, dd)"
  from vertex_loop_Inr [OF this]
  show all: "list_all2 (\<lambda>v m. model_of v (get_vertex env (vertex_url doc_url v)) = Inr m)
      (kept_vertices vs) models"
    by simp
  have "list_all2 (\<lambda>v m. stub_name v = model_name m) (kept_vertices vs) models"
    using all by (rule list_all2_mono) (simp add: model_of_Inr(1))
  then show "map model_name models = map stub_name (kept_vertices vs)"
    by (simp add: list_all2_conv_all_nth list_eq_iff_nth_eq)
next
  assume "edge_loop dict es [] = Inr endpoints"
  from edge_loop_Inr [OF this]
  show all: "list_all2 (\<lambda>e ep. endpoint_of dict e = Inr ep) (kept_edges es) endpoints"
    by simp
  have "list_all2 (\<lambda>e ep. underscore_to_camelcase (edge_name e) default_repl_char
      = Inr (endpoint_name ep)) (kept_edges es) endpoints"
    using all by (rule list_all2_mono) (rule endpoint_of_Inr(1))
  then show "map (\<lambda>ep. Inr (endpoint_name ep)) endpoints
      = map (\<lambda>e. underscore_to_camelcase (edge_name e) default_repl_char) (kept_edges es)"
    by (simp add: list_all2_conv_all_nth list_eq_iff_nth_eq)
qed

theorem lists_keep_declaration_order_witness:
  "vertex_loop example_env example_url (vertices example_doc) [] Map.empty
     = Inr (example_models, example_dict)
   \<and> map stub_name (vertices example_doc) = [''People'', ''Organization'', ''Root'']
   \<and> map model_name example_models = [''People'', ''Root'']
   \<and> edge_loop example_dict (outbound_edges example_doc) [] = Inr example_endpoints
   \<and> map edge_name (outbound_edges example_doc) = [''list_people'', ''organization'']
   \<and> map endpoint_name example_endpoints = [''ListPeople'']"
proof -
  have "map model_name example_models = map stub_name (kept_vertices (vertices example_doc))"
    using lists_keep_declaration_order
      [THEN conjunct1, rule_format, OF example_vertex_loop] by simp
  then have a: "map model_name example_models = [''People'', ''Root'']"
    by (simp add: example_doc_def)
  have "map (\<lambda>ep. Inr (endpoint_name ep)) example_endpoints
      = map (\<lambda>e. underscore_to_camelcase (edge_name e) default_repl_char)
          (kept_edges (outbound_edges example_doc))"
    using lists_keep_declaration_order
      [THEN conjunct2, rule_format, OF example_edge_loop] by simp
  then have b: "map endpoint_name example_endpoints = [''ListPeople'']"
    by (simp add: example_doc_def example_endpoints_def example_list_people)
  have "map stub_name (vertices example_doc) = [''People'', ''Organization'', ''Root'']"
    and "map edge_name (outbound_edges example_doc) = [''list_people'', ''organization'']"
    by (simp_all add: example_doc_def)
  with a b example_vertex_loop example_edge_loop show ?thesis by simp
qed

text \<open>
  C4. Nothing in either list comes from the \<^verbatim>\<open>organization\<close> vertex: both passes, and
  \<^verbatim>\<open>generate\<close> as a whole, do exactly what they do on the graph from which the
  \<^verbatim>\<open>organization\<close> vertex and the edges to it have been removed; and in a completed
  pass every model is built from a declared vertex whose id is not \<^verbatim>\<open>organization\<close>,
  every endpoint from a declared edge whose head is not \<^verbatim>\<open>organization\<close>, with as many
  entries as there are such vertices and edges.
\<close>

theorem organization_excluded:
  "vertex_loop env doc_url (kept_vertices vs) models dd = vertex_loop env doc_url vs models dd
   \<and> edge_loop dict (kept_edges es) endpoints = edge_loop dict es endpoints
   \<and> generate (env\<lparr>get_doc := \<lambda>url. without_organization (get_doc env url)\<rparr>)
         doc_url endpoint_path model_path fs
       = generate env doc_url endpoint_path model_path fs
   \<and> (vertex_loop env doc_url vs [] Map.empty = Inr (models', dd') \<longrightarrow>
        length models' = length (kept_vertices vs)
        \<and> (\<forall>m \<in> set models'. \<exists>v \<in> set vs. stub_id v \<noteq> ''organization''
              \<and> model_of v (get_vertex env (vertex_url doc_url v)) = Inr m))
   \<and> (edge_loop dict es [] = Inr endpoints' \<longrightarrow>
        length endpoints' = length (kept_edges es)
        \<and> (\<forall>ep \<in> set endpoints'. \<exists>e \<in> set es. head_id e \<noteq> ''organization''
              \<and> endpoint_of dict e = Inr ep))"
proof (intro conjI impI)
  show "vertex_loop env doc_url (kept_vertices vs) models dd = vertex_loop env doc_url vs models dd"
    by (rule vertex_loop_skip)
  show "edge_loop dict (kept_edges es) endpoints = edge_loop dict es endpoints"
    by (rule edge_loop_skip)
  show "generate (env\<lparr>get_doc := \<lambda>url. without_organization (get_doc env url)\<rparr>)
         doc_url endpoint_path model_path fs
       = generate env doc_url endpoint_path model_path fs"
    by (rule generate_without_organization)
next
  assume "vertex_loop env doc_url vs [] Map.empty = Inr (models', dd')"
  from vertex_loop_Inr [OF this]
  have all: "list_all2 (\<lambda>v m. model_of v (get_vertex env (vertex_url doc_url v)) = Inr m)
      (kept_vertices vs) models'"
    by simp
  then show "length models' = length (kept_vertices vs)"
    by (simp add: list_all2_lengthD)
  show "\<forall>m \<in> set models'. \<exists>v \<in> set vs. stub_id v \<noteq> ''organization''
      \<and> model_of v (get_vertex env (vertex_url doc_url v)) = Inr m"
  proof
    fix m assume "m \<in> set models'"
    then obtain i where i: "i < length models'" "models' ! i = m"
      by (meson in_set_conv_nth)
    with all have "kept_vertices vs ! i \<in> set (kept_vertices vs)"
      and "model_of (kept_vertices vs ! i)
        (get_vertex env (vertex_url doc_url (kept_vertices vs ! i))) = Inr m"
      by (auto simp: list_all2_conv_all_nth)
    then show "\<exists>v \<in> set vs. stub_id v \<noteq> ''organization''
        \<and> model_of v (get_vertex env (vertex_url doc_url v)) = Inr m"
      by (auto simp: kept_vertices_def)
  qed
next
  assume "edge_loop dict es [] = Inr endpoints'"
  from edge_loop_Inr [OF this]
  have all: "list_all2 (\<lambda>e ep. endpoint_of dict e = Inr ep) (kept_edges es) endpoints'"
    by simp
  then show "length endpoints' = length (kept_edges es)"
    by (simp add: list_all2_lengthD)
  show "\<forall>ep \<in> set endpoints'. \<exists>e \<in> set es. head_id e \<noteq> ''organization''
      \<and> endpoint_of dict e = Inr ep"
  proof
    fix ep assume "ep \<in> set endpoints'"
    then obtain i where i: "i < length endpoints'" "endpoints' ! i = ep"
      by (meson in_set_conv_nth)
    with all have "kept_edges es ! i \<in> set (kept_edges es)"
      and "endpoint_of dict (kept_edges es ! i) = Inr ep"
      by (auto simp: list_all2_conv_all_nth)
    then show "\<exists>e \<in> set es. head_id e \<noteq> ''organization'' \<and> endpoint_of dict e = Inr ep"
      by (auto simp: set_kept_edges)
  qed
qed

theorem organization_excluded_witness:
  "map stub_id (vertices example_doc) = [''person'', ''organization'', ''root'']
   \<and> vertex_loop example_env example_url (vertices example_doc) [] Map.empty
       = Inr (example_models, example_dict)
   \<and> length example_models = 2
   \<and> map head_id (outbound_edges example_doc) = [''person'', ''organization'']
   \<and> edge_loop example_dict (outbound_edges example_doc) [] = Inr example_endpoints
   \<and> length example_endpoints = 1"
proof -
  have "length example_models = length (kept_vertices (vertices example_doc))"
    using organization_excluded
      [THEN conjunct2, THEN conjunct2, THEN conjunct2, THEN conjunct1, rule_format,
       OF example_vertex_loop] by simp
  then have a: "length example_models = 2"
    by (simp add: example_doc_def)
  have "length example_endpoints = length (kept_edges (outbound_edges example_doc))"
    using organization_excluded
      [THEN conjunct2, THEN conjunct2, THEN conjunct2, THEN conjunct2, rule_format,
       OF example_edge_loop] by simp
  then have b: "length example_endpoints = 1"
    by (simp add: example_doc_def)
  have "map stub_id (vertices example_doc) = [''person'', ''organization'', ''root'']"
    and "map head_id (outbound_edges example_doc) = [''person'', ''organization'']"
    by (simp_all add: example_doc_def)
  with a b example_vertex_loop example_edge_loop show ?thesis by simp
qed

text \<open>
  C5. The formatter does not return the pascal-case form of every non-empty
  delimiter-separated identifier. The pascal-case form of \<^verbatim>\<open>"check-"\<close> with the
  delimiter \<^verbatim>\<open>'-'\<close> is \<^verbatim>\<open>"Check"\<close> (first character uppercased, delimiter removed), and
  on that identifier the formatter raises \<^verbatim>\<open>IndexError\<close>: it is the failure of C7, on
  an identifier that ends with the delimiter. The two examples of the claim do hold:
  \<^verbatim>\<open>"check-ins"\<close> with \<^verbatim>\<open>'-'\<close> gives \<^verbatim>\<open>"CheckIns"\<close> and \<^verbatim>\<open>"list_people"\<close> with the default
  delimiter gives \<^verbatim>\<open>"ListPeople"\<close>.
\<close>

theorem pascal_case_form_not_returned:
  "pascal_case ''check-'' CHR ''-'' = ''Check''
   \<and> underscore_to_camelcase ''check-'' CHR ''-'' = Inl IndexError
   \<and> underscore_to_camelcase ''check-ins'' CHR ''-'' = Inr ''CheckIns''
   \<and> underscore_to_camelcase ''list_people'' default_repl_char = Inr ''ListPeople''"
proof (intro conjI)
  show "pascal_case ''check-'' CHR ''-'' = ''Check''"
    by (simp add: pascal_case_def upper_def lowercase_def uppercase_def)
  show "underscore_to_camelcase ''check-'' CHR ''-'' = Inl IndexError"
    using formatter_trailing [OF not_letter_dash, of "''check-''"] by simp
  show "underscore_to_camelcase ''check-ins'' CHR ''-'' = Inr ''CheckIns''"
    using formatter_pascal [OF not_letter_dash, of "''check-ins''"]
    by (simp add: ascii_def pascal_case_def upper_def lowercase_def uppercase_def)
  show "underscore_to_camelcase ''list_people'' default_repl_char = Inr ''ListPeople''"
    by (rule example_list_people)
qed

text \<open>
  C6, as the code has it. The application name is taken from the pieces of the whole
  URL between \<^verbatim>\<open>'/'\<close>. When \<^verbatim>\<open>'v2'\<close> is among them and a piece precedes its first
  occurrence, the resolver returns that piece. It fails exactly when \<^verbatim>\<open>'v2'\<close> is not
  among the pieces, and the failure is the \<^verbatim>\<open>ValueError\<close> of \<^verbatim>\<open>index\<close>: the code has no
  \<^verbatim>\<open>MalformedURL\<close>.
\<close>

theorem resolver_preceding_piece:
  "((\<exists>e. resolve_app doc_url = Inl e) \<longleftrightarrow> ''v2'' \<notin> set (split doc_url CHR ''/''))
   \<and> (resolve_app doc_url = Inl e \<longrightarrow> e = ValueError)
   \<and> (split doc_url CHR ''/'' = pre @ a # ''v2'' # post \<and> ''v2'' \<notin> set (pre @ [a]) \<longrightarrow>
        resolve_app doc_url = Inr a)"
proof (intro conjI impI)
  show "(\<exists>e. resolve_app doc_url = Inl e) \<longleftrightarrow> ''v2'' \<notin> set (split doc_url CHR ''/'')"
    using resolve_app_Inl [of doc_url] resolve_app_absent [of doc_url] by blast
next
  assume "resolve_app doc_url = Inl e"
  then show "e = ValueError"
    using resolve_app_Inl by blast
next
  assume "split doc_url CHR ''/'' = pre @ a # ''v2'' # post \<and> ''v2'' \<notin> set (pre @ [a])"
  then show "resolve_app doc_url = Inr a"
    using resolve_app_preceding [of doc_url pre a post] by blast
qed

theorem resolver_preceding_piece_witness:
  "split example_url CHR ''/''
     = [''https:'', '''', ''api.planningcenteronline.com''] @ ''people'' # ''v2''
         # [''documentation'', ''2018-08-01'']
   \<and> resolve_app example_url = Inr ''people''
   \<and> ''v2'' \<notin> set (split ''https://api.planningcenteronline.com/people'' CHR ''/'')
   \<and> resolve_app ''https://api.planningcenteronline.com/people'' = Inl ValueError"
proof -
  have h: "split example_url CHR ''/''
     = [''https:'', '''', ''api.planningcenteronline.com''] @ ''people'' # ''v2''
         # [''documentation'', ''2018-08-01'']
     \<and> ''v2'' \<notin> set ([''https:'', '''', ''api.planningcenteronline.com''] @ [''people''])"
    by (simp add: example_url_def)
  have a: "resolve_app example_url = Inr ''people''"
    using resolver_preceding_piece [THEN conjunct2, THEN conjunct2, rule_format, OF h] .
  have n: "''v2'' \<notin> set (split ''https://api.planningcenteronline.com/people'' CHR ''/'')"
    by simp
  from resolver_preceding_piece [of "''https://api.planningcenteronline.com/people''", THEN conjunct1] n
  obtain e where e: "resolve_app ''https://api.planningcenteronline.com/people'' = Inl e"
    by blast
  then have "e = ValueError"
    using resolver_preceding_piece [THEN conjunct2, THEN conjunct1, rule_format] by blast
  with e h a n show ?thesis by simp
qed

text \<open>
  C6, as stated, fails: with \<^verbatim>\<open>'v2'\<close> as the first piece the resolver returns a piece
  that does not precede any \<^verbatim>\<open>'v2'\<close>, and without \<^verbatim>\<open>'v2'\<close> the error is not
  \<^verbatim>\<open>MalformedURL\<close>.
\<close>

theorem resolver_claim_counterexample:
  "resolve_app ''v2/people'' = Inr ''people''
   \<and> \<not> (\<exists>pre post. split ''v2/people'' CHR ''/'' = pre @ ''people'' # ''v2'' # post)
   \<and> ''v2'' \<notin> set (split ''people/documentation'' CHR ''/'')
   \<and> resolve_app ''people/documentation'' \<noteq> Inl MalformedURL"
proof -
  have "resolve_app ''v2/people'' = Inr ''people''"
    by (simp add: resolve_app_def list_get_def)
  moreover have "\<not> (\<exists>pre post. split ''v2/people'' CHR ''/'' = pre @ ''people'' # ''v2'' # post)"
    by (auto simp: Cons_eq_append_conv)
  moreover have "resolve_app ''people/documentation'' \<noteq> Inl MalformedURL"
    by (simp add: resolve_app_def)
  ultimately show ?thesis by simp
qed

text \<open>
  C7. The formatter does not return on every non-empty string: on an identifier that
  ends with the delimiter, deleting the delimiter leaves no element at its index, and
  the \<^verbatim>\<open>IndexError\<close> of \<^verbatim>\<open>string[under_ndx]\<close> leaves the function unhandled.
\<close>

theorem formatter_trailing_delimiter:
  "underscore_to_camelcase ''list_'' default_repl_char = Inl IndexError"
  using formatter_trailing [OF not_letter_underscore, of "''list_''"]
  by (simp add: default_repl_char_def)

text \<open>
  C8, as the code has it. On the empty string the formatter fails with the
  \<^verbatim>\<open>IndexError\<close> of \<^verbatim>\<open>string[0]\<close>, whatever the delimiter, and returns no value.
\<close>

theorem empty_string_raises_index_error:
  "underscore_to_camelcase [] repl_char = Inl IndexError"
  by (simp add: underscore_to_camelcase_def list_get_def)

text \<open>C8, as stated, fails: the error is not \<^verbatim>\<open>InvalidArgument\<close>.\<close>

theorem empty_string_not_invalid_argument:
  "underscore_to_camelcase '''' default_repl_char \<noteq> Inl InvalidArgument"
  by (simp add: underscore_to_camelcase_def list_get_def)

text \<open>
  C9. When the application name, the vertex pass and the formatting of the
  application name succeed and the edge pass raises, \<^verbatim>\<open>generate\<close> ends with that
  exception after the model file has been replaced by the new rendering; nothing else
  has been written, so the endpoint file is as it was.
\<close>

theorem model_file_written_before_edges:
  assumes "resolve_app doc_url = Inr app"
    and "vertex_loop env doc_url (vertices (get_doc env doc_url)) [] Map.empty = Inr (models, dd)"
    and "underscore_to_camelcase app CHR ''-'' = Inr app_name"
    and "edge_loop dd (outbound_edges (get_doc env doc_url)) [] = Inl err"
  shows "generate env doc_url endpoint_path model_path fs
     = (fs(output_file env model_path app \<mapsto> render_models env app_name models), Some err)"
  using assms by (simp add: generate_def Let_def)

theorem model_file_written_before_edges_witness:
  "old_files ''out/models/people.py'' = Some ''old models''
   \<and> old_files ''out/endpoints/people.py'' = Some ''old endpoints''
   \<and> snd (generate dangling_env example_url ''out/endpoints'' ''out/models'' old_files)
       = Some KeyError
   \<and> fst (generate dangling_env example_url ''out/endpoints'' ''out/models'' old_files)
       ''out/models/people.py'' = Some ''People models: People Root''
   \<and> fst (generate dangling_env example_url ''out/endpoints'' ''out/models'' old_files)
       ''out/endpoints/people.py'' = Some ''old endpoints''"
proof -
  have el: "edge_loop example_dict (outbound_edges (get_doc dangling_env example_url)) []
      = Inl KeyError"
    using dangling_edge_loop by (simp add: dangling_env_def example_env_def)
  have fname: "output_file dangling_env ''out/models'' ''people'' = ''out/models/people.py''"
    by (simp add: output_file_def dangling_env_def example_env_def replace_def)
  have rendered: "render_models dangling_env ''People'' example_models = ''People models: People Root''"
    by (simp add: dangling_env_def example_env_def example_models_def)
  have "generate dangling_env example_url ''out/endpoints'' ''out/models'' old_files
      = (old_files(''out/models/people.py'' \<mapsto> ''People models: People Root''), Some KeyError)"
    using model_file_written_before_edges
      [OF example_resolve_app dangling_vertex_loop example_app_name el,
       of "''out/endpoints''" "''out/models''" old_files]
    by (simp add: fname rendered)
  then show ?thesis
    by (simp add: old_files_def)
qed

text \<open>
  C10. When \<^verbatim>\<open>'v2'\<close> is the first piece of the URL, the resolver does not fail: it
  returns the last piece.
\<close>

theorem v2_first_returns_last_piece:
  assumes "split doc_url CHR ''/'' = ''v2'' # rest"
  shows "resolve_app doc_url = Inr (last (''v2'' # rest))"
proof -
  have "list_index (split doc_url CHR ''/'') ''v2'' = Inr 0"
    by (simp add: assms)
  moreover have "list_get (''v2'' # rest) (- 1) = Inr (last (''v2'' # rest))"
    by (rule list_get_last) simp
  ultimately show ?thesis
    by (simp add: resolve_app_def assms)
qed

theorem v2_first_returns_last_piece_witness:
  "split ''v2/documentation/2018-08-01'' CHR ''/'' = ''v2'' # [''documentation'', ''2018-08-01'']
   \<and> resolve_app ''v2/documentation/2018-08-01'' = Inr ''2018-08-01''"
proof -
  have h: "split ''v2/documentation/2018-08-01'' CHR ''/''
      = ''v2'' # [''documentation'', ''2018-08-01'']"
    by simp
  from v2_first_returns_last_piece [OF h] h show ?thesis by simp
qed

end
